theory Spec2Isabelle
  imports Complex_Main
begin

section \<open>The cardiac scan script\<close>

text \<open>
  The program is one script, \<^verbatim>\<open>lvnc-app.py\<close>. Its computation is the body of the
  start button: it builds the time index and the signal, reveals the signal in 100 steps,
  then draws three markers and one integer and combines them into a risk score that is
  classified twice. Python integers are \<^typ>\<open>int\<close>. Python floats are doubles: a float
  is a real number, and every arithmetic operation on floats returns the exact result
  rounded to the nearest double. Every random draw is an explicit input: a draw that a
  property quantifies over is a parameter, and the set of values a draw can take is a set.
\<close>

subsection \<open>Double-precision arithmetic\<close>

text \<open>
  Rounding to the nearest integer, a tie going to the even neighbour.
\<close>

definition round_even :: "real \<Rightarrow> int" where
  "round_even y =
     (let f = \<lfloor>y\<rfloor>; r = y - real_of_int f in
      if r < 1/2 then f else if 1/2 < r then f + 1 else if even f then f else f + 1)"

text \<open>
  The binary exponent of a non-zero real, \<open>2 ^ expo x \<le> \<bar>x\<bar> < 2 ^ (expo x + 1)\<close>, and the
  distance between neighbouring doubles at \<open>x\<close>, for a significand of 53 bits.
\<close>

definition expo :: "real \<Rightarrow> int" where
  "expo x = \<lfloor>log 2 \<bar>x\<bar>\<rfloor>"

definition ulp :: "real \<Rightarrow> real" where
  "ulp x = 2 powr (real_of_int (expo x) - 52)"

text \<open>
  \<open>rd x\<close> is the double nearest to \<open>x\<close>, ties to even: the result of a float operation
  whose exact result is \<open>x\<close>. The exponent is not bounded: overflow (magnitudes from
  \<open>2 ^ 1024\<close>) and gradual underflow (magnitudes below \<open>2 ^ -1022\<close>) are not modelled.
\<close>

definition rd :: "real \<Rightarrow> real" where
  "rd x = (if x = 0 then 0 else real_of_int (round_even (x / ulp x)) * ulp x)"

subsection \<open>Python and numpy operations the script calls\<close>

datatype error = ValueError

text \<open>\<^verbatim>\<open>int(x)\<close> on a float truncates towards zero.\<close>

definition py_int :: "real \<Rightarrow> int" where
  "py_int x = (if 0 \<le> x then \<lfloor>x\<rfloor> else \<lceil>x\<rceil>)"

text \<open>\<^verbatim>\<open>range(n)\<close>: the integers from 0 up to, not including, \<open>n\<close>.\<close>

definition range_py :: "int \<Rightarrow> int list" where
  "range_py n = map int [0..<nat n]"

text \<open>
  \<^verbatim>\<open>np.linspace(start, stop, num, endpoint=False)\<close>: a negative \<open>num\<close> raises
  ValueError and \<open>num = 0\<close> gives the empty array. Otherwise numpy computes, in doubles,
  \<^verbatim>\<open>delta = stop - start\<close>, \<^verbatim>\<open>step = delta / num\<close>,
  \<^verbatim>\<open>y = arange(0, num) * step\<close> and \<^verbatim>\<open>y += start\<close>. (The branch that numpy takes
  when \<open>step\<close> underflows to zero is outside what \<open>rd\<close> models.)
\<close>

definition linspace :: "real \<Rightarrow> real \<Rightarrow> int \<Rightarrow> error + real list" where
  "linspace start stop num =
     (if num < 0 then Inl ValueError
      else if num = 0 then Inr []
      else
        let delta = rd (stop - start);
            step = rd (delta / real_of_int num)
        in Inr (map (\<lambda>i. rd (rd (rd (real_of_int i) * step) + start)) (range_py num)))"

text \<open>
  \<^verbatim>\<open>np.random.randint(low, high)\<close> returns an integer from \<open>low\<close> (inclusive) to
  \<open>high\<close> (exclusive); \<^verbatim>\<open>np.random.uniform(low, high)\<close> returns a float from the
  half-open interval \<open>[low, high)\<close>. Both are modelled by the set of values they can return.
\<close>

definition randint :: "int \<Rightarrow> int \<Rightarrow> int set" where
  "randint low high = {low..<high}"

definition uniform :: "real \<Rightarrow> real \<Rightarrow> real set" where
  "uniform low high = {low..<high}"

text \<open>
  The draws of the signal synthesis: \<^verbatim>\<open>np.random.randn(samples)\<close> twice (one standard
  normal value per index) and \<^verbatim>\<open>np.random.rand()\<close> once.
\<close>

record rng =
  noise_draws :: "nat \<Rightarrow> real"
  abnormal_draw :: real
  abnormal_noise_draws :: "nat \<Rightarrow> real"

definition randn :: "(nat \<Rightarrow> real) \<Rightarrow> int \<Rightarrow> real list" where
  "randn draws n = map draws [0..<nat n]"

subsection \<open>Signal synthesis (lines 121--137)\<close>

definition sample_rate :: int where
  "sample_rate = 44100"

definition duration :: real where
  "duration = 10"

text \<open>
  \<^verbatim>\<open>samples = int(duration * sample_rate)\<close>, for a float duration: the integer rate is
  converted to a double and the product is rounded. (The script's own duration is the
  integer 10; its product 441000 is exact either way.)
\<close>

definition samples :: "int \<Rightarrow> real \<Rightarrow> int" where
  "samples rate dur = py_int (rd (dur * rd (real_of_int rate)))"

text \<open>\<^verbatim>\<open>t = np.linspace(0, duration, samples, endpoint=False)\<close>\<close>

definition t_index :: "int \<Rightarrow> real \<Rightarrow> error + real list" where
  "t_index rate dur = linspace 0 dur (samples rate dur)"

record signal_buffer =
  sb_t :: "real list"
  sb_full_signal :: "real list"

text \<open>
  The sample values. No property below depends on them, only on how many there are, and
  \<open>sin\<close> and \<open>pi\<close> are the exact ones here.
\<close>

definition base_signal :: "real list \<Rightarrow> real list" where
  "base_signal t = map (\<lambda>x. 0.5 * sin (2 * pi * 25 * x)) t"

definition noise :: "rng \<Rightarrow> int \<Rightarrow> real list" where
  "noise g n = map (\<lambda>z. 0.1 * z) (randn (noise_draws g) n)"

definition mask :: "bool \<Rightarrow> real" where
  "mask b = (if b then 1 else 0)"

definition abnormality :: "rng \<Rightarrow> int \<Rightarrow> real list \<Rightarrow> real list" where
  "abnormality g n t =
     (if abnormal_draw g > 0.6
      then map2 (+) (map (\<lambda>x. 0.3 * sin (2 * pi * 150 * x) * mask (x > 5)) t)
                    (map2 (\<lambda>z x. 0.2 * z * mask (x > 7)) (randn (abnormal_noise_draws g) n) t)
      else map (\<lambda>_. 0) (range_py n))"

definition synthesize :: "int \<Rightarrow> real \<Rightarrow> rng \<Rightarrow> error + signal_buffer" where
  "synthesize rate dur g =
     (let n = samples rate dur in
      case t_index rate dur of
        Inl e \<Rightarrow> Inl e
      | Inr t \<Rightarrow>
          Inr \<lparr>sb_t = t,
               sb_full_signal =
                 map2 (+) (map2 (+) (base_signal t) (noise g n)) (abnormality g n t)\<rparr>)"

subsection \<open>The reveal loop (lines 140--185)\<close>

text \<open>
  \<^verbatim>\<open>chunk_size = int(samples/100)\<close>. The quotient of two Python integers is the exact
  quotient rounded to a double; \<open>chunk_size\<close> takes the exact quotient, and
  \<open>chunk_size_double\<close> below shows that the rounding changes nothing for a sample count
  below \<open>2 ^ 53\<close>.
\<close>

definition chunk_size :: "int \<Rightarrow> int" where
  "chunk_size n = py_int (real_of_int n / 100)"

text \<open>\<^verbatim>\<open>display_samples = min((i+1)*chunk_size, samples)\<close>\<close>

definition display_samples :: "int \<Rightarrow> int \<Rightarrow> int" where
  "display_samples n i = min ((i + 1) * chunk_size n) n"

text \<open>
  One pass of the loop body, as far as the data goes: the progress value, the end index of
  the slice that is plotted, and whether the spectrum is recomputed in this pass.
\<close>

record frame =
  progress :: int
  end_index :: int
  spectrum_updated :: bool

definition scan_step :: "int \<Rightarrow> int \<Rightarrow> frame" where
  "scan_step n i =
     \<lparr>progress = i + 1, end_index = display_samples n i, spectrum_updated = (i mod 5 = 0)\<rparr>"

text \<open>\<^verbatim>\<open>for i in range(100): ...\<close>\<close>

fun run_steps :: "int \<Rightarrow> int list \<Rightarrow> frame list" where
  "run_steps n [] = []"
| "run_steps n (i # is) = scan_step n i # run_steps n is"

definition scan_loop :: "int \<Rightarrow> frame list" where
  "scan_loop n = run_steps n (range_py 100)"

subsection \<open>Risk score and its two classifications (lines 198--267)\<close>

definition nc_ratio_draw :: "real set" where
  "nc_ratio_draw = uniform 1.5 2.8"

definition ejection_fraction_draw :: "real set" where
  "ejection_fraction_draw = uniform 35 65"

definition trabeculation_score_draw :: "real set" where
  "trabeculation_score_draw = uniform 0.4 0.9"

text \<open>The last summand of the score, \<^verbatim>\<open>np.random.randint(0, 15)\<close>.\<close>

definition perturbation_draw :: "int set" where
  "perturbation_draw = randint 0 15"

text \<open>
  The argument of \<^verbatim>\<open>int\<close> in lines 203--208, as Python evaluates it: left to right, each
  operation rounded. The integer constants and the integer draw convert to doubles exactly.
\<close>

definition risk_raw :: "real \<Rightarrow> real \<Rightarrow> real \<Rightarrow> int \<Rightarrow> real" where
  "risk_raw nc_ratio ejection_fraction trabeculation_score perturbation =
     rd (rd (rd (rd (30 * rd (nc_ratio - 1.5)) +
                 rd (25 * rd (1 - rd (ejection_fraction / 65)))) +
             rd (20 * trabeculation_score)) +
         real_of_int perturbation)"

definition risk_score :: "real \<Rightarrow> real \<Rightarrow> real \<Rightarrow> int \<Rightarrow> int" where
  "risk_score nc_ratio ejection_fraction trabeculation_score perturbation =
     min 100 (py_int (risk_raw nc_ratio ejection_fraction trabeculation_score perturbation))"

text \<open>
  The weighted sum in exact arithmetic, as the specification writes it; the program
  computes \<open>risk_raw\<close>, and the two are compared below.
\<close>

definition risk_exact :: "real \<Rightarrow> real \<Rightarrow> real \<Rightarrow> int \<Rightarrow> real" where
  "risk_exact nc_ratio ejection_fraction trabeculation_score perturbation =
     30 * (nc_ratio - 1.5) +
     25 * (1 - ejection_fraction / 65) +
     20 * trabeculation_score +
     real_of_int perturbation"

text \<open>The delta text of the fourth metric card (line 215).\<close>

definition metric_card :: "int \<Rightarrow> string" where
  "metric_card s = (if s > 60 then ''High Risk'' else if s > 40 then ''Moderate'' else ''Low'')"

text \<open>The recommendation box (lines 241--267): its kind and its headline.\<close>

datatype box = Error_box string | Warning_box string | Success_box string

definition recommendation :: "int \<Rightarrow> box" where
  "recommendation s =
     (if s > 70 then Error_box ''High Probability of LVNC Detected''
      else if s > 45 then Warning_box ''Moderate Suspicion for LVNC''
      else Success_box ''Low Probability of LVNC'')"

subsection \<open>A fixed random source for concrete runs\<close>

text \<open>Every draw is 0: the abnormality branch is not taken and the noise vanishes.\<close>

definition zero_rng :: rng where
  "zero_rng = \<lparr>noise_draws = (\<lambda>_. 0), abnormal_draw = 0, abnormal_noise_draws = (\<lambda>_. 0)\<rparr>"

section \<open>Properties\<close>

subsection \<open>Rounding to a double\<close>

lemma round_even_cases: "round_even y = \<lfloor>y\<rfloor> \<or> round_even y = \<lfloor>y\<rfloor> + 1"
  by (simp add: round_even_def Let_def)

lemma round_even_err: "\<bar>real_of_int (round_even y) - y\<bar> \<le> 1/2"
proof -
  have "real_of_int \<lfloor>y\<rfloor> \<le> y" and "y < real_of_int \<lfloor>y\<rfloor> + 1" by linarith+
  then show ?thesis by (auto simp: round_even_def Let_def)
qed

lemma round_even_of_int [simp]: "round_even (real_of_int m) = m"
  by (simp add: round_even_def)

lemma round_even_mono:
  assumes "y \<le> z"
  shows "round_even y \<le> round_even z"
proof (cases "\<lfloor>y\<rfloor> = \<lfloor>z\<rfloor>")
  case True
  have "y - real_of_int \<lfloor>z\<rfloor> \<le> z - real_of_int \<lfloor>z\<rfloor>" using assms by simp
  then show ?thesis using True by (auto simp: round_even_def Let_def)
next
  case False
  have "\<lfloor>y\<rfloor> \<le> \<lfloor>z\<rfloor>" using assms by (rule floor_mono)
  with False have "\<lfloor>y\<rfloor> + 1 \<le> \<lfloor>z\<rfloor>" by simp
  moreover have "round_even y \<le> \<lfloor>y\<rfloor> + 1" using round_even_cases [of y] by auto
  moreover have "\<lfloor>z\<rfloor> \<le> round_even z" using round_even_cases [of z] by auto
  ultimately show ?thesis by linarith
qed

lemma round_even_minus: "round_even (- y) = - round_even y"
proof (cases "y \<in> \<int>")
  case True
  then obtain m where "y = real_of_int m" by (elim Ints_cases)
  then have "round_even (- y) = round_even (real_of_int (- m))" by simp
  also have "\<dots> = - m" by (rule round_even_of_int)
  finally show ?thesis using \<open>y = real_of_int m\<close> by simp
next
  case False
  have "y \<noteq> real_of_int \<lfloor>y\<rfloor>" using False by (metis Ints_of_int)
  then have lt: "real_of_int \<lfloor>y\<rfloor> < y" "y < real_of_int \<lfloor>y\<rfloor> + 1" by linarith+
  have c: "real_of_int (- \<lfloor>y\<rfloor> - 1) = - real_of_int \<lfloor>y\<rfloor> - 1" by simp
  have a: "real_of_int (- \<lfloor>y\<rfloor> - 1) \<le> - y" unfolding c using lt by linarith
  have b: "- y < real_of_int (- \<lfloor>y\<rfloor> - 1) + 1" unfolding c using lt by linarith
  have fl: "\<lfloor>- y\<rfloor> = - \<lfloor>y\<rfloor> - 1" using a b by (rule floor_unique)
  show ?thesis unfolding round_even_def Let_def fl using lt by auto
qed

lemma expo_bounds:
  assumes "x \<noteq> 0"
  shows "2 powr real_of_int (expo x) \<le> \<bar>x\<bar>" and "\<bar>x\<bar> < 2 powr (real_of_int (expo x) + 1)"
proof -
  have pos: "0 < \<bar>x\<bar>" using assms by simp
  have "real_of_int (expo x) \<le> log 2 \<bar>x\<bar>" by (simp add: expo_def)
  then show "2 powr real_of_int (expo x) \<le> \<bar>x\<bar>"
    using pos by (simp add: le_log_iff)
  have "log 2 \<bar>x\<bar> < real_of_int (expo x) + 1" unfolding expo_def by linarith
  then show "\<bar>x\<bar> < 2 powr (real_of_int (expo x) + 1)"
    using pos by (simp add: log_less_iff)
qed

lemma expo_unique:
  assumes "2 powr real_of_int e \<le> \<bar>x\<bar>" and "\<bar>x\<bar> < 2 powr (real_of_int e + 1)"
  shows "expo x = e"
proof -
  have "0 < 2 powr real_of_int e" by simp
  with assms(1) have pos: "0 < \<bar>x\<bar>" by linarith
  have "real_of_int e \<le> log 2 \<bar>x\<bar>" using assms(1) pos by (simp add: le_log_iff)
  moreover have "log 2 \<bar>x\<bar> < real_of_int e + 1" using assms(2) pos by (simp add: log_less_iff)
  ultimately show ?thesis unfolding expo_def by linarith
qed

lemma ulp_pos [simp]: "0 < ulp x"
  by (simp add: ulp_def)

lemma ulp_nonneg [simp]: "0 \<le> ulp x"
  by (simp add: ulp_def)

lemma ulp_neq_0 [simp]: "ulp x \<noteq> 0"
  by (simp add: ulp_def)

lemma two_powr_Suc: "2 powr (a + 1) = 2 powr a * (2::real)"
  by (simp add: powr_add)

lemma ulp_minus [simp]: "ulp (- x) = ulp x"
  by (simp add: ulp_def expo_def)

lemma two_powr_split: "2 powr (a - 52) * 2 ^ 52 = 2 powr (a::real)"
proof -
  have "(2::real) ^ 52 = 2 powr 52" by (simp add: powr_numeral)
  then have "2 powr (a - 52) * 2 ^ 52 = 2 powr (a - 52) * 2 powr 52" by simp
  also have "\<dots> = 2 powr (a - 52 + 52)" by (simp only: powr_add)
  finally show ?thesis by simp
qed

lemma scaled_bounds:
  assumes "x \<noteq> 0"
  shows "2 ^ 52 \<le> \<bar>x\<bar> / ulp x" and "\<bar>x\<bar> / ulp x < 2 ^ 53"
proof -
  let ?a = "real_of_int (expo x)"
  have u: "ulp x * 2 ^ 52 = 2 powr ?a" unfolding ulp_def by (rule two_powr_split)
  have "ulp x * 2 ^ 52 \<le> \<bar>x\<bar>" using expo_bounds(1) [OF assms] u by simp
  then show "2 ^ 52 \<le> \<bar>x\<bar> / ulp x" by (simp add: pos_le_divide_eq mult.commute)
  have "2 powr (?a + 1) = 2 powr ?a * 2" by (simp add: powr_add)
  then have "\<bar>x\<bar> < ulp x * 2 ^ 53" using expo_bounds(2) [OF assms] u by simp
  then show "\<bar>x\<bar> / ulp x < 2 ^ 53" by (simp add: pos_divide_less_eq mult.commute)
qed

lemma rd_zero [simp]: "rd 0 = 0"
  by (simp add: rd_def)

lemma rd_minus: "rd (- x) = - rd x"
  by (simp add: rd_def round_even_minus)

lemma rd_scaled: "x \<noteq> 0 \<Longrightarrow> rd x = real_of_int (round_even (x / ulp x)) * ulp x"
  by (simp add: rd_def)

lemma ulp_eval:
  fixes k :: nat
  assumes "2 ^ 52 \<le> \<bar>x\<bar> * 2 ^ k" and "\<bar>x\<bar> * 2 ^ k < 2 ^ 53"
  shows "ulp x = 1 / 2 ^ k"
proof -
  have p: "2 powr real_of_int (52 - int k) = 2 ^ 52 / 2 ^ k"
  proof -
    have "2 powr real_of_int (52 - int k) = 2 powr (52 - real k)" by simp
    also have "\<dots> = 2 powr 52 / 2 powr real k" by (rule powr_diff)
    also have "\<dots> = 2 ^ 52 / 2 ^ k" by (simp add: powr_realpow powr_numeral)
    finally show ?thesis .
  qed
  have "2 ^ 52 / 2 ^ k \<le> \<bar>x\<bar>" using assms(1) by (simp add: pos_divide_le_eq)
  then have a: "2 powr real_of_int (52 - int k) \<le> \<bar>x\<bar>" using p by simp
  have "2 powr (real_of_int (52 - int k) + 1) = 2 powr real_of_int (52 - int k) * 2"
    by (rule two_powr_Suc)
  also have "\<dots> = 2 ^ 53 / 2 ^ k" using p by simp
  finally have q: "2 powr (real_of_int (52 - int k) + 1) = 2 ^ 53 / 2 ^ k" .
  have "\<bar>x\<bar> < 2 ^ 53 / 2 ^ k" using assms(2) by (simp add: pos_less_divide_eq)
  then have b: "\<bar>x\<bar> < 2 powr (real_of_int (52 - int k) + 1)" using q by simp
  have e: "expo x = 52 - int k" using a b by (rule expo_unique)
  have "ulp x = 2 powr (- real k)" by (simp add: ulp_def e)
  also have "\<dots> = 1 / 2 powr real k" by (simp add: powr_minus divide_inverse)
  also have "\<dots> = 1 / 2 ^ k" by (simp add: powr_realpow)
  finally show ?thesis .
qed

lemma rd_eval:
  fixes k :: nat
  assumes "2 ^ 52 \<le> \<bar>x\<bar> * 2 ^ k" and "\<bar>x\<bar> * 2 ^ k < 2 ^ 53"
  shows "rd x = real_of_int (round_even (x * 2 ^ k)) / 2 ^ k"
proof -
  have "(0::real) < 2 ^ 52" by simp
  with assms(1) have "x \<noteq> 0" by auto
  moreover have "ulp x = 1 / 2 ^ k" using assms by (rule ulp_eval)
  ultimately show ?thesis by (simp add: rd_scaled)
qed

lemma ulp_two_powr: "ulp x * 2 ^ 52 = 2 powr real_of_int (expo x)"
  unfolding ulp_def by (rule two_powr_split)

lemma rd_pos_lower:
  assumes "0 < x"
  shows "ulp x * 2 ^ 52 \<le> rd x"
proof -
  have "2 ^ 52 \<le> x / ulp x" using scaled_bounds(1) [of x] assms by simp
  then have "round_even (2 ^ 52) \<le> round_even (x / ulp x)" by (rule round_even_mono)
  moreover have "round_even (2 ^ 52) = 2 ^ 52"
    using round_even_of_int [of "2 ^ 52"] by simp
  ultimately have "(2::real) ^ 52 \<le> real_of_int (round_even (x / ulp x))"
    by (metis of_int_le_iff of_int_numeral of_int_power)
  then have "2 ^ 52 * ulp x \<le> real_of_int (round_even (x / ulp x)) * ulp x"
    by (intro mult_right_mono) simp_all
  then show ?thesis using assms by (simp add: rd_scaled mult.commute)
qed

lemma rd_pos_upper:
  assumes "0 < x"
  shows "rd x \<le> ulp x * 2 ^ 53"
proof -
  have "x / ulp x \<le> 2 ^ 53" using scaled_bounds(2) [of x] assms by simp
  then have "round_even (x / ulp x) \<le> round_even (2 ^ 53)" by (rule round_even_mono)
  moreover have "round_even (2 ^ 53) = 2 ^ 53"
    using round_even_of_int [of "2 ^ 53"] by simp
  ultimately have "real_of_int (round_even (x / ulp x)) \<le> (2::real) ^ 53"
    by (metis of_int_le_iff of_int_numeral of_int_power)
  then have "real_of_int (round_even (x / ulp x)) * ulp x \<le> 2 ^ 53 * ulp x"
    by (intro mult_right_mono) simp_all
  then show ?thesis using assms by (simp add: rd_scaled mult.commute)
qed

lemma rd_pos: "0 < x \<Longrightarrow> 0 < rd x"
proof -
  assume x: "0 < x"
  have "0 < ulp x * 2 ^ 52" by simp
  also have "\<dots> \<le> rd x" using x by (rule rd_pos_lower)
  finally show ?thesis .
qed

lemma ulp_mono:
  assumes "0 < x" and "x \<le> y"
  shows "ulp x \<le> ulp y"
proof -
  have "log 2 \<bar>x\<bar> \<le> log 2 \<bar>y\<bar>" using assms by simp
  then have "expo x \<le> expo y" unfolding expo_def by (rule floor_mono)
  then show ?thesis by (simp add: ulp_def)
qed

lemma rd_mono_pos:
  assumes "0 < x" and "x \<le> y"
  shows "rd x \<le> rd y"
proof (cases "expo x = expo y")
  case True
  then have u: "ulp x = ulp y" by (simp add: ulp_def)
  have "x / ulp y \<le> y / ulp y" using assms(2) by (intro divide_right_mono) simp_all
  then have "round_even (x / ulp y) \<le> round_even (y / ulp y)" by (rule round_even_mono)
  then have "real_of_int (round_even (x / ulp y)) * ulp y \<le> real_of_int (round_even (y / ulp y)) * ulp y"
    by (intro mult_right_mono) simp_all
  then show ?thesis using assms u by (simp add: rd_scaled)
next
  case False
  have "log 2 \<bar>x\<bar> \<le> log 2 \<bar>y\<bar>" using assms by simp
  then have "expo x \<le> expo y" unfolding expo_def by (rule floor_mono)
  with False have "real_of_int (expo x) + 1 \<le> real_of_int (expo y)" by linarith
  then have "2 powr (real_of_int (expo x) + 1) \<le> 2 powr real_of_int (expo y)" by simp
  moreover have "2 powr (real_of_int (expo x) + 1) = ulp x * 2 ^ 53"
    using ulp_two_powr [of x] two_powr_Suc [of "real_of_int (expo x)"] by simp
  ultimately have "ulp x * 2 ^ 53 \<le> ulp y * 2 ^ 52" using ulp_two_powr [of y] by simp
  moreover have "rd x \<le> ulp x * 2 ^ 53" using assms(1) by (rule rd_pos_upper)
  moreover have "ulp y * 2 ^ 52 \<le> rd y" using assms by (intro rd_pos_lower) simp
  ultimately show ?thesis by linarith
qed

lemma rd_mono:
  assumes "x \<le> y"
  shows "rd x \<le> rd y"
proof -
  consider "0 < x" | "x \<le> 0" "0 \<le> y" | "y < 0" by linarith
  then show ?thesis
  proof cases
    case 1
    then show ?thesis using assms by (rule rd_mono_pos)
  next
    case 2
    have "rd x \<le> 0"
    proof (cases "x = 0")
      case True
      then show ?thesis by simp
    next
      case False
      with 2 have "0 < - x" by simp
      then have "0 < rd (- x)" by (rule rd_pos)
      then show ?thesis by (simp add: rd_minus)
    qed
    moreover have "0 \<le> rd y"
    proof (cases "y = 0")
      case True
      then show ?thesis by simp
    next
      case False
      with 2 have "0 < y" by simp
      then have "0 < rd y" by (rule rd_pos)
      then show ?thesis by simp
    qed
    ultimately show ?thesis by linarith
  next
    case 3
    then have "0 < - y" and "- y \<le> - x" using assms by simp_all
    then have "rd (- y) \<le> rd (- x)" by (rule rd_mono_pos)
    then show ?thesis by (simp add: rd_minus)
  qed
qed

lemma rd_err: "\<bar>rd x - x\<bar> \<le> \<bar>x\<bar> / 2 ^ 53"
proof (cases "x = 0")
  case True
  then show ?thesis by simp
next
  case False
  let ?u = "ulp x"
  have "\<bar>real_of_int (round_even (x / ?u)) - x / ?u\<bar> \<le> 1/2" by (rule round_even_err)
  then have "\<bar>real_of_int (round_even (x / ?u)) - x / ?u\<bar> * ?u \<le> 1/2 * ?u"
    by (intro mult_right_mono) simp_all
  moreover have "\<bar>real_of_int (round_even (x / ?u)) - x / ?u\<bar> * ?u
      = \<bar>real_of_int (round_even (x / ?u)) * ?u - x\<bar>"
  proof -
    have "\<bar>real_of_int (round_even (x / ?u)) - x / ?u\<bar> * ?u
        = \<bar>(real_of_int (round_even (x / ?u)) - x / ?u) * ?u\<bar>"
      by (simp add: abs_mult)
    also have "(real_of_int (round_even (x / ?u)) - x / ?u) * ?u
        = real_of_int (round_even (x / ?u)) * ?u - x"
      by (simp add: left_diff_distrib)
    finally show ?thesis .
  qed
  ultimately have e: "\<bar>rd x - x\<bar> \<le> ?u / 2" using False by (simp add: rd_scaled)
  have "?u * 2 ^ 52 \<le> \<bar>x\<bar>" using scaled_bounds(1) [OF False] by (simp add: pos_le_divide_eq mult.commute)
  then have "?u / 2 \<le> \<bar>x\<bar> / 2 ^ 53" by simp
  with e show ?thesis by linarith
qed

lemma rd_idem_pos:
  assumes "0 < x"
  shows "rd (rd x) = rd x"
proof -
  let ?u = "ulp x"
  let ?m = "round_even (x / ?u)"
  let ?e = "real_of_int (expo x)"
  have y: "rd x = real_of_int ?m * ?u" using assms by (simp add: rd_scaled)
  have ypos: "0 < rd x" using assms by (rule rd_pos)
  have lo: "?u * 2 ^ 52 \<le> rd x" using assms by (rule rd_pos_lower)
  have hi: "rd x \<le> ?u * 2 ^ 53" using assms by (rule rd_pos_upper)
  have p52: "?u * 2 ^ 52 = 2 powr ?e" by (rule ulp_two_powr)
  have p53: "?u * 2 ^ 53 = 2 powr (?e + 1)"
    using ulp_two_powr [of x] two_powr_Suc [of ?e] by simp
  show ?thesis
  proof (cases "rd x = ?u * 2 ^ 53")
    case False
    with hi have "rd x < ?u * 2 ^ 53" by simp
    then have "\<bar>rd x\<bar> < 2 powr (?e + 1)" using ypos p53 by simp
    moreover have "2 powr ?e \<le> \<bar>rd x\<bar>" using lo ypos p52 by simp
    ultimately have "expo (rd x) = expo x" by (intro expo_unique)
    then have u: "ulp (rd x) = ?u" by (simp add: ulp_def)
    have "rd x / ?u = real_of_int ?m" by (simp add: y)
    then have "round_even (rd x / ?u) = ?m" by simp
    then have r: "real_of_int (round_even (rd x / ulp (rd x))) * ulp (rd x) = real_of_int ?m * ?u"
      by (simp add: u)
    have "rd x \<noteq> 0" using ypos by simp
    then have "rd (rd x) = real_of_int (round_even (rd x / ulp (rd x))) * ulp (rd x)"
      by (rule rd_scaled)
    also have "\<dots> = real_of_int ?m * ?u" by (rule r)
    also have "\<dots> = rd x" by (simp only: y)
    finally show ?thesis .
  next
    case True
    have "2 powr (?e + 1) \<le> \<bar>rd x\<bar>" using True p53 by simp
    moreover have "\<bar>rd x\<bar> < 2 powr (?e + 1 + 1)"
      using True p53 two_powr_Suc [of "?e + 1"] by simp
    ultimately have "expo (rd x) = expo x + 1"
      using expo_unique [of "expo x + 1" "rd x"] by simp
    then have "ulp (rd x) = 2 powr (?e + 1 - 52)" by (simp add: ulp_def)
    also have "\<dots> = 2 powr (?e - 52 + 1)" by (simp add: algebra_simps)
    also have "\<dots> = ?u * 2" unfolding ulp_def by (rule two_powr_Suc)
    finally have u: "ulp (rd x) = ?u * 2" .
    have "rd x / (?u * 2) = real_of_int (2 ^ 52)" using True by simp
    then have "round_even (rd x / (?u * 2)) = 2 ^ 52" by (simp only: round_even_of_int)
    then have r: "real_of_int (round_even (rd x / ulp (rd x))) * ulp (rd x) = 2 ^ 52 * (?u * 2)"
      by (simp add: u)
    have "rd x \<noteq> 0" using ypos by simp
    then have "rd (rd x) = real_of_int (round_even (rd x / ulp (rd x))) * ulp (rd x)"
      by (rule rd_scaled)
    also have "\<dots> = 2 ^ 52 * (?u * 2)" by (rule r)
    also have "\<dots> = rd x" using True by simp
    finally show ?thesis .
  qed
qed

lemma rd_idem [simp]: "rd (rd x) = rd x"
proof -
  consider "0 < x" | "x = 0" | "x < 0" by linarith
  then show ?thesis
  proof cases
    case 1
    then show ?thesis by (rule rd_idem_pos)
  next
    case 2
    then show ?thesis by simp
  next
    case 3
    then have "rd (rd (- x)) = rd (- x)" by (intro rd_idem_pos) simp
    then show ?thesis by (simp add: rd_minus)
  qed
qed

lemma rd_dyadic_pos:
  fixes q :: nat
  assumes "0 < m" and "m < 2 ^ 53"
  shows "rd (real_of_int m / 2 ^ q) = real_of_int m / 2 ^ q"
proof -
  define x where "x = real_of_int m / 2 ^ q"
  have xpos: "0 < x" using assms(1) by (simp add: x_def)
  have xne: "x \<noteq> 0" using xpos by simp
  have ax: "\<bar>x\<bar> = x" using xpos by simp
  let ?e = "real_of_int (expo x)"
  have elo: "2 powr ?e \<le> x" using expo_bounds(1) [OF xne] unfolding ax .
  have ehi: "x < 2 powr (?e + 1)" using expo_bounds(2) [OF xne] unfolding ax .
  have xlt: "x < 2 ^ 53 / 2 ^ q"
  proof -
    have "real_of_int m < real_of_int (2 ^ 53)" using assms(2) by (simp only: of_int_less_iff)
    then have "real_of_int m < 2 ^ 53" by simp
    then show ?thesis unfolding x_def by (simp add: divide_strict_right_mono)
  qed
  from elo xlt have "2 powr ?e < 2 ^ 53 / 2 ^ q" by linarith
  also have "\<dots> = 2 powr (53 - real q)"
    by (simp add: powr_diff powr_realpow powr_numeral)
  finally have "?e < 53 - real q" by simp
  then have e: "expo x \<le> 52 - int q" by linarith
  define j where "j = nat (52 - expo x)"
  have j: "int j = 52 - expo x" and qj: "q \<le> j" using e by (simp_all add: j_def)
  have pj: "2 powr (52 - ?e) = 2 ^ j"
  proof -
    have "52 - ?e = real j" using j by linarith
    then show ?thesis by (simp add: powr_realpow)
  qed
  have split: "2 powr ?e * 2 ^ j = 2 ^ 52"
  proof -
    have "2 powr ?e * 2 powr (52 - ?e) = 2 powr (?e + (52 - ?e))" by (simp only: powr_add)
    also have "\<dots> = 2 ^ 52" by (simp add: powr_numeral)
    finally show ?thesis unfolding pj .
  qed
  have lo: "2 ^ 52 \<le> \<bar>x\<bar> * 2 ^ j"
  proof -
    have "2 powr ?e * 2 ^ j \<le> x * 2 ^ j"
      using elo by (intro mult_right_mono) simp_all
    then show ?thesis unfolding ax split .
  qed
  have hi: "\<bar>x\<bar> * 2 ^ j < 2 ^ 53"
  proof -
    have "x * 2 ^ j < 2 powr (?e + 1) * 2 ^ j"
      using ehi by (intro mult_strict_right_mono) simp_all
    also have "\<dots> = 2 * (2 powr ?e * 2 ^ j)" unfolding two_powr_Suc by simp
    also have "\<dots> = 2 ^ 53" unfolding split by simp
    finally show ?thesis unfolding ax .
  qed
  have xj: "x * 2 ^ j = real_of_int (m * 2 ^ (j - q))"
  proof -
    have "(2::real) ^ j = 2 ^ (j - q) * 2 ^ q" using qj by (simp flip: power_add)
    then show ?thesis by (simp add: x_def)
  qed
  have "round_even (x * 2 ^ j) = m * 2 ^ (j - q)" unfolding xj by (rule round_even_of_int)
  then have "real_of_int (round_even (x * 2 ^ j)) / 2 ^ j = x * 2 ^ j / 2 ^ j"
    unfolding xj by simp
  also have "\<dots> = x" by simp
  finally have "rd x = x" using rd_eval [OF lo hi] by simp
  then show ?thesis unfolding x_def .
qed

lemma rd_dyadic:
  fixes q :: nat
  assumes "\<bar>m\<bar> < 2 ^ 53"
  shows "rd (real_of_int m / 2 ^ q) = real_of_int m / 2 ^ q"
proof -
  consider "0 < m" | "m = 0" | "m < 0" by linarith
  then show ?thesis
  proof cases
    case 1
    then show ?thesis using assms by (intro rd_dyadic_pos) simp_all
  next
    case 2
    then show ?thesis by simp
  next
    case 3
    then have "rd (real_of_int (- m) / 2 ^ q) = real_of_int (- m) / 2 ^ q"
      using assms by (intro rd_dyadic_pos) simp_all
    then show ?thesis using rd_minus [of "real_of_int m / 2 ^ q"] by simp
  qed
qed

lemma rd_of_int: "\<bar>m\<bar> < 2 ^ 53 \<Longrightarrow> rd (real_of_int m) = real_of_int m"
  using rd_dyadic [of m 0] by simp

lemma rd_step_strict:
  fixes i :: nat
  assumes "0 < s" and "real i < 2 ^ 52"
  shows "rd (real i * s) < rd (real (Suc i) * s)"
proof (cases "i = 0")
  case True
  then show ?thesis using assms(1) by (simp add: rd_pos)
next
  case False
  let ?x = "real i * s" and ?y = "real (Suc i) * s"
  have xpos: "0 < ?x" using False assms(1) by simp
  have ypos: "0 < ?y" using assms(1) by simp
  have "\<bar>rd ?x - ?x\<bar> \<le> ?x / 2 ^ 53"
    using rd_err [of ?x] unfolding abs_of_pos [OF xpos] .
  then have ex: "rd ?x \<le> ?x + ?x / 2 ^ 53" by linarith
  have "\<bar>rd ?y - ?y\<bar> \<le> ?y / 2 ^ 53"
    using rd_err [of ?y] unfolding abs_of_pos [OF ypos] .
  then have ey: "?y - ?y / 2 ^ 53 \<le> rd ?y" by linarith
  have "(2 * real i + 1) < 2 ^ 53" using assms(2) by simp
  then have "(2 * real i + 1) * s < 2 ^ 53 * s" using assms(1) by (intro mult_strict_right_mono)
  then have "(2 * real i + 1) * s / 2 ^ 53 < s" by (simp add: pos_divide_less_eq mult.commute)
  moreover have "?x / 2 ^ 53 + ?y / 2 ^ 53 = (2 * real i + 1) * s / 2 ^ 53"
    by (simp add: algebra_simps add_divide_distrib)
  moreover have "?y = ?x + s" by (simp add: algebra_simps)
  ultimately have "?x + ?x / 2 ^ 53 < ?y - ?y / 2 ^ 53" by linarith
  with ex ey show ?thesis by linarith
qed

subsection \<open>Auxiliary facts\<close>

lemma rd_one [simp]: "rd 1 = 1"
  using rd_of_int [of 1] by simp

lemma rd_numeral: "(numeral w :: int) < 2 ^ 53 \<Longrightarrow> rd (numeral w) = numeral w"
  using rd_of_int [of "numeral w"] by simp

lemma rd_nonneg: "0 \<le> x \<Longrightarrow> 0 \<le> rd x"
  using rd_mono [of 0 x] by simp

lemma rd_ge_numeral:
  assumes "numeral w \<le> x" and "(numeral w :: int) < 2 ^ 53"
  shows "numeral w \<le> rd x"
  using rd_mono [OF assms(1)] rd_numeral [OF assms(2)] by simp

lemma rd_le_one: "x \<le> 1 \<Longrightarrow> rd x \<le> 1"
  using rd_mono [of x 1] by simp

lemma rd_err_bound:
  assumes "\<bar>x\<bar> \<le> b"
  shows "\<bar>rd x - x\<bar> \<le> b / 2 ^ 53"
proof -
  have "\<bar>rd x - x\<bar> \<le> \<bar>x\<bar> / 2 ^ 53" by (rule rd_err)
  also have "\<dots> \<le> b / 2 ^ 53" using assms by (simp add: divide_right_mono)
  finally show ?thesis .
qed

lemma py_int_nonneg: "0 \<le> x \<Longrightarrow> py_int x = \<lfloor>x\<rfloor>"
  by (simp add: py_int_def)

lemma py_int_mono: "x \<le> y \<Longrightarrow> py_int x \<le> py_int y"
proof -
  assume xy: "x \<le> y"
  have fl: "\<lfloor>x\<rfloor> \<le> \<lfloor>y\<rfloor>" using xy by (rule floor_mono)
  have ce: "\<lceil>x\<rceil> \<le> \<lceil>y\<rceil>" using xy by (rule ceiling_mono)
  show ?thesis
  proof (cases "0 \<le> x")
    case True
    then show ?thesis using xy fl by (simp add: py_int_def)
  next
    case False
    then have cx: "\<lceil>x\<rceil> \<le> 0" by simp
    show ?thesis
    proof (cases "0 \<le> y")
      case True
      then have "0 \<le> \<lfloor>y\<rfloor>" by simp
      with cx have "\<lceil>x\<rceil> \<le> \<lfloor>y\<rfloor>" by linarith
      moreover have "py_int x = \<lceil>x\<rceil>" using False by (simp add: py_int_def)
      moreover have "py_int y = \<lfloor>y\<rfloor>" using True by (simp add: py_int_def)
      ultimately show ?thesis by simp
    next
      case y: False
      then show ?thesis using False ce by (simp add: py_int_def)
    qed
  qed
qed

lemma run_steps_map: "run_steps n xs = map (scan_step n) xs"
  by (induction xs) simp_all

lemma scan_loop_length: "length (scan_loop n) = 100"
  by (simp add: scan_loop_def range_py_def run_steps_map)

lemma scan_loop_nth: "i < 100 \<Longrightarrow> scan_loop n ! i = scan_step n (int i)"
  by (simp add: scan_loop_def range_py_def run_steps_map)

lemma scan_loop_last: "last (scan_loop n) = scan_step n 99"
proof -
  have "scan_loop n \<noteq> []" using scan_loop_length [of n] by auto
  then have "last (scan_loop n) = scan_loop n ! (length (scan_loop n) - 1)"
    by (rule last_conv_nth)
  then show ?thesis by (simp add: scan_loop_length scan_loop_nth)
qed

lemma chunk_size_nonneg: "0 \<le> n \<Longrightarrow> chunk_size n = n div 100"
proof -
  assume n: "0 \<le> n"
  have "\<lfloor>real_of_int n / real_of_int 100\<rfloor> = n div 100"
    by (rule floor_divide_of_int_eq)
  then show ?thesis using n by (simp add: chunk_size_def py_int_def)
qed

lemma chunk_size_neg: "n < 0 \<Longrightarrow> chunk_size n = - ((- n) div 100)"
proof -
  assume n: "n < 0"
  have "\<lfloor>real_of_int (- n) / real_of_int 100\<rfloor> = (- n) div 100"
    by (rule floor_divide_of_int_eq)
  then have "\<lceil>real_of_int n / 100\<rceil> = - ((- n) div 100)"
    by (simp add: ceiling_def)
  then show ?thesis using n by (simp add: chunk_size_def py_int_def)
qed

lemma display_samples_mono_nonneg:
  assumes "0 \<le> n" "i \<le> j"
  shows "display_samples n i \<le> display_samples n j"
proof -
  have c: "0 \<le> chunk_size n" using assms(1) by (simp add: chunk_size_nonneg)
  have "(i + 1) * chunk_size n \<le> (j + 1) * chunk_size n"
    using assms(2) c by (simp add: mult_right_mono)
  then show ?thesis by (simp add: display_samples_def)
qed

lemma display_samples_neg:
  assumes "n < 0" "0 \<le> i" "i < 100"
  shows "display_samples n i = n"
proof -
  have c: "chunk_size n = - ((- n) div 100)" using assms(1) by (rule chunk_size_neg)
  have "100 * ((- n) div 100) \<le> - n" by simp
  moreover have "(i + 1) * ((- n) div 100) \<le> 100 * ((- n) div 100)"
    using assms by (intro mult_right_mono) simp_all
  ultimately have "n \<le> (i + 1) * chunk_size n" using c by simp
  then show ?thesis by (simp add: display_samples_def)
qed

lemma display_samples_mono:
  assumes "0 \<le> i" "i \<le> j" "j < 100"
  shows "display_samples n i \<le> display_samples n j"
proof (cases "0 \<le> n")
  case True
  then show ?thesis using assms(2) by (rule display_samples_mono_nonneg)
next
  case False
  then show ?thesis using assms by (simp add: display_samples_neg)
qed

text \<open>
  For a sample count below \<open>2 ^ 53\<close> the rounding of the quotient \<^verbatim>\<open>samples/100\<close> to a
  double does not change its integer part.
\<close>

lemma chunk_size_double:
  assumes "0 \<le> n" and "n < 2 ^ 53"
  shows "py_int (rd (real_of_int n / 100)) = chunk_size n"
proof -
  define q where "q = real_of_int n / 100"
  define k where "k = n div 100"
  have n: "n = 100 * k + n mod 100" by (simp add: k_def)
  have m: "0 \<le> n mod 100" "n mod 100 \<le> 99" by simp_all
  have "real_of_int n = 100 * real_of_int k + real_of_int (n mod 100)"
    using n by (metis of_int_add of_int_mult of_int_numeral)
  then have q: "q = real_of_int k + real_of_int (n mod 100) / 100" by (simp add: q_def)
  have lo: "real_of_int k \<le> q" using q m by simp
  have hi: "q \<le> real_of_int k + 99 / 100" using q m by simp
  have k0: "0 \<le> k" using assms(1) by (simp add: k_def)
  have "k \<le> n" using n m k0 by linarith
  then have "\<bar>k\<bar> < 2 ^ 53" using assms(2) k0 by simp
  then have "rd (real_of_int k) = real_of_int k" by (rule rd_of_int)
  then have a: "real_of_int k \<le> rd q" using rd_mono [OF lo] by simp
  have q0: "0 \<le> q" using assms(1) by (simp add: q_def)
  have "real_of_int n < real_of_int (2 ^ 53)" using assms(2) by (simp only: of_int_less_iff)
  then have "q < 2 ^ 53 / 100" by (simp add: q_def)
  then have small: "q / 2 ^ 53 < 1 / 100" by simp
  have aq: "\<bar>q\<bar> = q" using q0 by simp
  have "\<bar>rd q - q\<bar> \<le> q / 2 ^ 53" using rd_err [of q] unfolding aq .
  then have "rd q \<le> q + q / 2 ^ 53" by linarith
  with small hi have b: "rd q < real_of_int k + 1" by linarith
  have "\<lfloor>rd q\<rfloor> = k" using a b by (rule floor_unique)
  moreover have "0 \<le> rd q" using q0 by (rule rd_nonneg)
  ultimately have "py_int (rd q) = k" by (simp add: py_int_def)
  then show ?thesis using assms(1) by (simp add: chunk_size_nonneg q_def k_def)
qed

lemma length_range_py: "length (range_py n) = nat n"
  by (simp add: range_py_def)

lemma nth_range_py: "i < nat n \<Longrightarrow> range_py n ! i = int i"
  by (simp add: range_py_def)

lemma length_abnormality: "length t = nat n \<Longrightarrow> length (abnormality g n t) = nat n"
  by (simp add: abnormality_def randn_def length_range_py)

lemma length_noise: "length (noise g n) = nat n"
  by (simp add: noise_def randn_def)

lemma length_linspace: "linspace a b n = Inr t \<Longrightarrow> length t = nat n"
  by (auto simp: linspace_def Let_def length_range_py split: if_splits)

lemma linspace_defined: "0 \<le> n \<Longrightarrow> \<exists>t. linspace a b n = Inr t"
  by (simp add: linspace_def Let_def)

lemma linspace_nth:
  assumes "0 < n" and "i < nat n"
  shows "\<exists>t. linspace a b n = Inr t \<and>
           t ! i = rd (rd (rd (real i) * rd (rd (b - a) / real_of_int n)) + a)"
  using assms by (simp add: linspace_def Let_def length_range_py nth_range_py)

lemma synthesize_ok:
  assumes "0 \<le> samples rate dur"
  shows "\<exists>buf t. synthesize rate dur g = Inr buf \<and> t_index rate dur = Inr t \<and> sb_t buf = t \<and>
           length (sb_t buf) = nat (samples rate dur) \<and>
           length (sb_full_signal buf) = nat (samples rate dur)"
proof -
  let ?n = "samples rate dur"
  obtain t where t: "t_index rate dur = Inr t"
    using linspace_defined [OF assms] unfolding t_index_def by blast
  then have lt: "length t = nat ?n" unfolding t_index_def by (rule length_linspace)
  have "length (abnormality g ?n t) = nat ?n" using lt by (rule length_abnormality)
  then have "length (map2 (+) (map2 (+) (base_signal t) (noise g ?n)) (abnormality g ?n t)) = nat ?n"
    using lt by (simp add: base_signal_def length_noise)
  then show ?thesis using t lt by (simp add: synthesize_def Let_def)
qed

lemma samples_eq:
  assumes "0 < rate" and "rate < 2 ^ 53" and "0 < dur"
  shows "samples rate dur = \<lfloor>rd (real_of_int rate * dur)\<rfloor>"
proof -
  have r: "rd (real_of_int rate) = real_of_int rate" using assms(1,2) by (intro rd_of_int) simp
  have "0 \<le> real_of_int rate * dur" using assms(1,3) by simp
  then have "0 \<le> rd (real_of_int rate * dur)" by (rule rd_nonneg)
  then show ?thesis by (simp add: samples_def r py_int_def mult.commute)
qed

lemma t_index_entries:
  assumes "0 < rate" and "rate < 2 ^ 53" and "0 < dur" and "rd dur = dur"
    and "real_of_int rate * dur \<le> 2 ^ 52"
    and "t_index rate dur = Inr t"
  shows "int (length t) = \<lfloor>rd (real_of_int rate * dur)\<rfloor>"
    and "real (length t) \<le> 2 ^ 52"
    and "i < length t \<Longrightarrow> t ! i = rd (real i * rd (dur / real (length t)))"
proof -
  let ?n = "samples rate dur"
  have n: "?n = \<lfloor>rd (real_of_int rate * dur)\<rfloor>" using assms(1-3) by (rule samples_eq)
  have "0 \<le> real_of_int rate * dur" using assms(1,3) by simp
  then have "0 \<le> rd (real_of_int rate * dur)" by (rule rd_nonneg)
  then have n0: "0 \<le> ?n" unfolding n by simp
  have lt: "length t = nat ?n" using assms(6) unfolding t_index_def by (rule length_linspace)
  show len: "int (length t) = \<lfloor>rd (real_of_int rate * dur)\<rfloor>" using lt n0 n by simp
  have "rd (real_of_int rate * dur) \<le> rd (2 ^ 52)" using assms(5) by (rule rd_mono)
  moreover have "rd (2 ^ 52) = 2 ^ 52" using rd_of_int [of "2 ^ 52"] by simp
  ultimately have "rd (real_of_int rate * dur) \<le> 2 ^ 52" by simp
  then have "real_of_int \<lfloor>rd (real_of_int rate * dur)\<rfloor> \<le> 2 ^ 52" by linarith
  then have "real_of_int (int (length t)) \<le> 2 ^ 52" unfolding len .
  then show bound: "real (length t) \<le> 2 ^ 52" by simp
  show "t ! i = rd (real i * rd (dur / real (length t)))" if i: "i < length t"
  proof -
    have npos: "0 < ?n" using i lt by simp
    have rn: "real_of_int ?n = real (length t)" using lt n0 by simp
    from linspace_nth [OF npos, of i 0 dur] i lt assms(6)
    have "t ! i = rd (rd (rd (real i) * rd (rd (dur - 0) / real_of_int ?n)) + 0)"
      by (simp add: t_index_def)
    moreover have "rd (real i) = real i"
    proof -
      have "real i < 2 ^ 52" using i bound by simp
      then have "real_of_int (int i) < real_of_int (2 ^ 53)" by simp
      then have "int i < 2 ^ 53" by (simp only: of_int_less_iff)
      then show ?thesis using rd_of_int [of "int i"] by simp
    qed
    ultimately show ?thesis by (simp add: assms(4) rn)
  qed
qed

lemma samples_script: "samples sample_rate duration = 441000"
proof -
  have "rd 44100 = 44100" and "rd 441000 = 441000" by (rule rd_numeral, simp)+
  then show ?thesis by (simp add: samples_def sample_rate_def duration_def py_int_def)
qed

text \<open>
  The product is rounded before it is truncated: with 3 Hz and the double written
  \<^verbatim>\<open>0.3333333333333333\<close> the exact product is below 1 and the buffer has one sample.
\<close>

lemma samples_rounding:
  "samples 3 (6004799503160661 / 2 ^ 54) = 1 \<and>
   \<lfloor>real_of_int 3 * (6004799503160661 / 2 ^ 54)\<rfloor> = 0"
proof -
  have "rd 3 = 3" by (rule rd_numeral) simp
  moreover have "rd (6004799503160661 / 2 ^ 54 * 3) = 1"
    by (subst rd_eval [where k = 53]) (simp_all add: round_even_def)
  ultimately have "samples 3 (6004799503160661 / 2 ^ 54) = 1"
    unfolding samples_def by (simp add: py_int_def)
  then show ?thesis by simp
qed

lemma risk_raw_lower:
  assumes "1.5 \<le> nc" and "ef \<le> 65" and "0.4 \<le> tr" and "0 \<le> p"
  shows "8 \<le> risk_raw nc ef tr p"
proof -
  have "0 \<le> 30 * rd (nc - 1.5)" using assms(1) by (simp add: rd_nonneg)
  then have a: "0 \<le> rd (30 * rd (nc - 1.5))" by (rule rd_nonneg)
  have "rd (ef / 65) \<le> 1" using assms(2) by (intro rd_le_one) simp
  then have "0 \<le> 25 * rd (1 - rd (ef / 65))" by (simp add: rd_nonneg)
  then have b: "0 \<le> rd (25 * rd (1 - rd (ef / 65)))" by (rule rd_nonneg)
  have "8 \<le> 20 * tr" using assms(3) by simp
  then have c: "8 \<le> rd (20 * tr)" by (intro rd_ge_numeral) simp_all
  from a b have "0 \<le> rd (30 * rd (nc - 1.5)) + rd (25 * rd (1 - rd (ef / 65)))" by simp
  then have ab: "0 \<le> rd (rd (30 * rd (nc - 1.5)) + rd (25 * rd (1 - rd (ef / 65))))"
    by (rule rd_nonneg)
  from ab c have "8 \<le> rd (rd (30 * rd (nc - 1.5)) + rd (25 * rd (1 - rd (ef / 65)))) + rd (20 * tr)"
    by linarith
  then have abc: "8 \<le> rd (rd (rd (30 * rd (nc - 1.5)) + rd (25 * rd (1 - rd (ef / 65)))) + rd (20 * tr))"
    by (intro rd_ge_numeral) simp_all
  have "0 \<le> real_of_int p" using assms(4) by simp
  with abc have "8 \<le> rd (rd (rd (30 * rd (nc - 1.5)) + rd (25 * rd (1 - rd (ef / 65)))) + rd (20 * tr))
      + real_of_int p" by linarith
  then show ?thesis unfolding risk_raw_def by (intro rd_ge_numeral) simp_all
qed

lemma risk_raw_mono_terms:
  assumes "a \<le> a'" and "b \<le> b'" and "c \<le> c'" and "p \<le> p'"
  shows "rd (rd (rd (a + b) + c) + real_of_int p) \<le> rd (rd (rd (a' + b') + c') + real_of_int p')"
proof -
  have "a + b \<le> a' + b'" using assms(1,2) by simp
  then have "rd (a + b) \<le> rd (a' + b')" by (rule rd_mono)
  then have "rd (a + b) + c \<le> rd (a' + b') + c'" using assms(3) by simp
  then have "rd (rd (a + b) + c) \<le> rd (rd (a' + b') + c')" by (rule rd_mono)
  then have "rd (rd (a + b) + c) + real_of_int p \<le> rd (rd (a' + b') + c') + real_of_int p'"
    using assms(4) by simp
  then show ?thesis by (rule rd_mono)
qed

lemma risk_raw_mono_nc:
  assumes "nc \<le> nc'"
  shows "risk_raw nc ef tr p \<le> risk_raw nc' ef tr p"
proof -
  have "nc - 1.5 \<le> nc' - 1.5" using assms by simp
  then have "rd (nc - 1.5) \<le> rd (nc' - 1.5)" by (rule rd_mono)
  then have "30 * rd (nc - 1.5) \<le> 30 * rd (nc' - 1.5)" by simp
  then have "rd (30 * rd (nc - 1.5)) \<le> rd (30 * rd (nc' - 1.5))" by (rule rd_mono)
  then show ?thesis unfolding risk_raw_def by (intro risk_raw_mono_terms order_refl)
qed

lemma risk_raw_mono_ef:
  assumes "ef' \<le> ef"
  shows "risk_raw nc ef tr p \<le> risk_raw nc ef' tr p"
proof -
  have "ef' / 65 \<le> ef / 65" using assms by simp
  then have "rd (ef' / 65) \<le> rd (ef / 65)" by (rule rd_mono)
  then have "1 - rd (ef / 65) \<le> 1 - rd (ef' / 65)" by simp
  then have "rd (1 - rd (ef / 65)) \<le> rd (1 - rd (ef' / 65))" by (rule rd_mono)
  then have "25 * rd (1 - rd (ef / 65)) \<le> 25 * rd (1 - rd (ef' / 65))" by simp
  then have "rd (25 * rd (1 - rd (ef / 65))) \<le> rd (25 * rd (1 - rd (ef' / 65)))"
    by (rule rd_mono)
  then show ?thesis unfolding risk_raw_def by (intro risk_raw_mono_terms order_refl)
qed

lemma risk_raw_mono_tr:
  assumes "tr \<le> tr'"
  shows "risk_raw nc ef tr p \<le> risk_raw nc ef tr' p"
proof -
  have "20 * tr \<le> 20 * tr'" using assms by simp
  then have "rd (20 * tr) \<le> rd (20 * tr')" by (rule rd_mono)
  then show ?thesis unfolding risk_raw_def by (intro risk_raw_mono_terms order_refl)
qed


lemma risk_raw_err:
  assumes "1.5 \<le> nc" and "nc \<le> 2.8" and "35 \<le> ef" and "ef \<le> 65"
    and "0.4 \<le> tr" and "tr \<le> 0.9" and "0 \<le> p" and "p \<le> 15"
  shows "\<bar>risk_raw nc ef tr p - risk_exact nc ef tr p\<bar> \<le> 1 / 2 ^ 43"
proof -
  define x1 where "x1 = nc - 1.5"
  define a1 where "a1 = rd x1"
  define A where "A = rd (30 * a1)"
  define y1 where "y1 = ef / 65"
  define b1 where "b1 = rd y1"
  define b2 where "b2 = rd (1 - b1)"
  define B where "B = rd (25 * b2)"
  define C where "C = rd (20 * tr)"
  define S1 where "S1 = rd (A + B)"
  define S2 where "S2 = rd (S1 + C)"
  define R where "R = rd (S2 + real_of_int p)"
  define u :: real where "u = 1 / 2 ^ 53"
  have u: "0 < u" "u \<le> 1 / 1000" by (simp_all add: u_def)
  have raw: "risk_raw nc ef tr p = R"
    by (simp add: risk_raw_def R_def S2_def S1_def C_def B_def b2_def b1_def y1_def A_def
        a1_def x1_def)
  have exact: "risk_exact nc ef tr p = 30 * x1 + 25 * (1 - y1) + 20 * tr + real_of_int p"
    by (simp add: risk_exact_def x1_def y1_def)
  have x1: "0 \<le> x1" "x1 \<le> 2" using assms(1,2) by (simp_all add: x1_def)
  have y1: "0 \<le> y1" "y1 \<le> 1" using assms(3,4) by (simp_all add: y1_def)
  have p: "0 \<le> real_of_int p" "real_of_int p \<le> 15" using assms(7,8) by simp_all
  have "\<bar>x1\<bar> \<le> 2" using x1 by simp
  then have "\<bar>rd x1 - x1\<bar> \<le> 2 / 2 ^ 53" by (rule rd_err_bound)
  then have e1: "\<bar>a1 - x1\<bar> \<le> 2 * u" by (simp add: a1_def u_def)
  have "\<bar>30 * a1\<bar> \<le> 61" using e1 x1 u by argo
  then have "\<bar>rd (30 * a1) - 30 * a1\<bar> \<le> 61 / 2 ^ 53" by (rule rd_err_bound)
  then have "\<bar>A - 30 * a1\<bar> \<le> 61 * u" by (simp add: A_def u_def)
  with e1 have eA: "\<bar>A - 30 * x1\<bar> \<le> 121 * u" by argo
  have "\<bar>y1\<bar> \<le> 1" using y1 by simp
  then have "\<bar>rd y1 - y1\<bar> \<le> 1 / 2 ^ 53" by (rule rd_err_bound)
  then have e3: "\<bar>b1 - y1\<bar> \<le> u" by (simp add: b1_def u_def)
  have "\<bar>1 - b1\<bar> \<le> 2" using e3 y1 u by argo
  then have "\<bar>rd (1 - b1) - (1 - b1)\<bar> \<le> 2 / 2 ^ 53" by (rule rd_err_bound)
  then have "\<bar>b2 - (1 - b1)\<bar> \<le> 2 * u" by (simp add: b2_def u_def)
  with e3 have e4: "\<bar>b2 - (1 - y1)\<bar> \<le> 3 * u" by argo
  have "\<bar>25 * b2\<bar> \<le> 26" using e4 y1 u by argo
  then have "\<bar>rd (25 * b2) - 25 * b2\<bar> \<le> 26 / 2 ^ 53" by (rule rd_err_bound)
  then have "\<bar>B - 25 * b2\<bar> \<le> 26 * u" by (simp add: B_def u_def)
  with e4 have eB: "\<bar>B - 25 * (1 - y1)\<bar> \<le> 101 * u" by argo
  have "\<bar>20 * tr\<bar> \<le> 18" using assms(5,6) by simp
  then have "\<bar>rd (20 * tr) - 20 * tr\<bar> \<le> 18 / 2 ^ 53" by (rule rd_err_bound)
  then have eC: "\<bar>C - 20 * tr\<bar> \<le> 18 * u" by (simp add: C_def u_def)
  have "\<bar>A + B\<bar> \<le> 88" using eA eB x1 y1 u by argo
  then have "\<bar>rd (A + B) - (A + B)\<bar> \<le> 88 / 2 ^ 53" by (rule rd_err_bound)
  then have "\<bar>S1 - (A + B)\<bar> \<le> 88 * u" by (simp add: S1_def u_def)
  with eA eB have e7: "\<bar>S1 - (30 * x1 + 25 * (1 - y1))\<bar> \<le> 310 * u" by argo
  have "\<bar>S1 + C\<bar> \<le> 107" using e7 eC x1 y1 assms(5,6) u by argo
  then have "\<bar>rd (S1 + C) - (S1 + C)\<bar> \<le> 107 / 2 ^ 53" by (rule rd_err_bound)
  then have "\<bar>S2 - (S1 + C)\<bar> \<le> 107 * u" by (simp add: S2_def u_def)
  with e7 eC have e8: "\<bar>S2 - (30 * x1 + 25 * (1 - y1) + 20 * tr)\<bar> \<le> 435 * u" by argo
  have "\<bar>S2 + real_of_int p\<bar> \<le> 123" using e8 x1 y1 assms(5,6) p u by argo
  then have "\<bar>rd (S2 + real_of_int p) - (S2 + real_of_int p)\<bar> \<le> 123 / 2 ^ 53"
    by (rule rd_err_bound)
  then have "\<bar>R - (S2 + real_of_int p)\<bar> \<le> 123 * u" by (simp add: R_def u_def)
  with e8 u have "\<bar>R - (30 * x1 + 25 * (1 - y1) + 20 * tr + real_of_int p)\<bar> \<le> 1024 * u"
    by argo
  moreover have "1024 * u = 1 / 2 ^ 43" by (simp add: u_def)
  ultimately show ?thesis unfolding raw exact by simp
qed

lemma risk_score_mono_raw:
  "risk_raw nc ef tr p \<le> risk_raw nc' ef' tr' p' \<Longrightarrow>
   risk_score nc ef tr p \<le> risk_score nc' ef' tr' p'"
  unfolding risk_score_def by (intro min.mono order_refl py_int_mono)

text \<open>
  The scenario markers \<open>nc_ratio = 2.5\<close>, \<open>ejection_fraction = 35\<close> and
  \<open>trabeculation_score = 0.85\<close>. The last is not a double; the Python literal denotes
  \<open>rd 0.85\<close>, and the product with 20 rounds to 17 for either.
\<close>

lemma scenario_raw:
  assumes c: "rd (20 * tr) = 17"
  shows "risk_raw 2.5 35 tr p = rd (8238556049108047 / 2 ^ 47 + real_of_int p)"
proof -
  have a0: "rd (2.5 - 1.5) = 1"
    by (subst rd_eval [where k = 52]) (simp_all add: round_even_def)
  have a1: "rd (30 * 1) = 30"
    by (subst rd_eval [where k = 48]) (simp_all add: round_even_def)
  have b0: "rd (35 / 65) = 4850030367937457 / 2 ^ 53"
    by (subst rd_eval [where k = 53]) (simp_all add: round_even_def)
  have b1: "rd (1 - 4850030367937457 / 2 ^ 53) = 4157168886803535 / 2 ^ 53"
    by (subst rd_eval [where k = 54]) (simp_all add: round_even_def)
  have b2: "rd (25 * (4157168886803535 / 2 ^ 53)) = 6495576385630523 / 2 ^ 49"
    by (subst rd_eval [where k = 49]) (simp_all add: round_even_def)
  have ab: "rd (30 + 6495576385630523 / 2 ^ 49) = 5846018747067471 / 2 ^ 47"
    by (subst rd_eval [where k = 47]) (simp_all add: round_even_def)
  have abc: "rd (5846018747067471 / 2 ^ 47 + 17) = 8238556049108047 / 2 ^ 47"
    by (subst rd_eval [where k = 47]) (simp_all add: round_even_def)
  show ?thesis unfolding risk_raw_def a0 a1 b0 b1 b2 ab c abc ..
qed

lemma tr_exact: "rd (20 * 0.85) = 17"
  by (subst rd_eval [where k = 48]) (simp_all add: round_even_def)

lemma tr_double: "rd (20 * rd 0.85) = 17"
proof -
  have "rd 0.85 = 7656119366529843 / 2 ^ 53"
    by (subst rd_eval [where k = 53]) (simp_all add: round_even_def)
  moreover have "rd (20 * (7656119366529843 / 2 ^ 53)) = 17"
    by (subst rd_eval [where k = 48]) (simp_all add: round_even_def)
  ultimately show ?thesis by (simp only:)
qed

lemma scenario_score_0:
  assumes "rd (20 * tr) = 17"
  shows "risk_score 2.5 35 tr 0 = 58"
proof -
  have "rd (8238556049108047 / 2 ^ 47 + real_of_int 0) = 8238556049108047 / 2 ^ 47"
    by (subst rd_eval [where k = 47]) (simp_all add: round_even_def)
  then have r: "risk_raw 2.5 35 tr 0 = 8238556049108047 / 2 ^ 47"
    unfolding scenario_raw [OF assms, of 0] .
  show ?thesis unfolding risk_score_def r by (simp add: py_int_def)
qed





subsection \<open>The perturbation term\<close>

text \<open>
  Claim C1, as the code has it: the perturbation term is \<^verbatim>\<open>np.random.randint(0, 15)\<close>,
  whose upper bound is exclusive. Its possible values are exactly the integers from 0
  through 14.
\<close>

theorem perturbation_draw_values: "perturbation_draw = {0..14}"
  by (auto simp: perturbation_draw_def randint_def)

text \<open>
  The value 15, which C1 lists among the possible values, is not one.
\<close>

theorem perturbation_draw_counterexample: "15 \<notin> perturbation_draw"
  by (simp add: perturbation_draw_def randint_def)

subsection \<open>Signal synthesis\<close>

text \<open>
  Claim C3, as the code has it: for a sample rate below \<open>2 ^ 53\<close>, a duration that is a
  positive double and at most \<open>2 ^ 52\<close> samples, the synthesis succeeds, and signal and
  time index have the same length, the integer part of the product \<open>rate * duration\<close>
  as a double. Entry \<open>i\<close> of the time index is the double nearest to \<open>i * step\<close>, where
  \<open>step\<close> is the double nearest to \<open>duration / length\<close>; the time index starts at 0 and is
  strictly increasing. When \<open>rate * duration\<close> is an integer (as for 44100 Hz and 10 s),
  the length is exactly \<open>rate * duration\<close> and \<open>step\<close> is the double nearest to
  \<open>1 / rate\<close>.
\<close>

theorem synthesize_length_and_time:
  assumes "0 < rate" and "rate < 2 ^ 53" and "0 < dur" and "rd dur = dur"
    and "real_of_int rate * dur \<le> 2 ^ 52"
  shows "\<exists>buf. synthesize rate dur g = Inr buf \<and>
           length (sb_full_signal buf) = length (sb_t buf) \<and>
           int (length (sb_t buf)) = \<lfloor>rd (real_of_int rate * dur)\<rfloor> \<and>
           (\<forall>i<length (sb_t buf).
              sb_t buf ! i = rd (real i * rd (dur / real (length (sb_t buf))))) \<and>
           (0 < length (sb_t buf) \<longrightarrow> sb_t buf ! 0 = 0) \<and>
           (\<forall>i. Suc i < length (sb_t buf) \<longrightarrow> sb_t buf ! i < sb_t buf ! Suc i) \<and>
           (real_of_int rate * dur \<in> \<int> \<longrightarrow>
              real (length (sb_t buf)) = real_of_int rate * dur \<and>
              rd (dur / real (length (sb_t buf))) = rd (1 / real_of_int rate))"
proof -
  have n: "samples rate dur = \<lfloor>rd (real_of_int rate * dur)\<rfloor>"
    using assms(1-3) by (rule samples_eq)
  have pos: "0 < real_of_int rate * dur" using assms(1,3) by simp
  then have "0 \<le> rd (real_of_int rate * dur)" by (intro rd_nonneg) simp
  then have "0 \<le> samples rate dur" unfolding n by simp
  from synthesize_ok [OF this, of g] obtain buf t where
    b: "synthesize rate dur g = Inr buf" and t: "t_index rate dur = Inr t"
    and bt: "sb_t buf = t" and l: "length (sb_full_signal buf) = nat (samples rate dur)"
    and lt: "length (sb_t buf) = nat (samples rate dur)"
    by blast
  note e = t_index_entries [OF assms t]
  let ?s = "rd (dur / real (length t))"
  have nth: "t ! i = rd (real i * ?s)" if "i < length t" for i using that by (rule e(3))
  have first: "t ! 0 = 0" if "0 < length t" using nth [OF that] by simp
  have strict: "t ! i < t ! Suc i" if i: "Suc i < length t" for i
  proof -
    have "0 < length t" using i by linarith
    then have "0 < real (length t)" by (simp only: of_nat_0_less_iff)
    with assms(3) have "0 < dur / real (length t)" by (rule divide_pos_pos)
    then have s: "0 < ?s" by (rule rd_pos)
    have "real i < 2 ^ 52" using i e(2) by simp
    with s have "rd (real i * ?s) < rd (real (Suc i) * ?s)" by (rule rd_step_strict)
    moreover have "t ! i = rd (real i * ?s)" using i by (intro nth) simp
    moreover have "t ! Suc i = rd (real (Suc i) * ?s)" using i by (rule nth)
    ultimately show ?thesis by simp
  qed
  have whole: "real (length t) = real_of_int rate * dur \<and> ?s = rd (1 / real_of_int rate)"
    if z: "real_of_int rate * dur \<in> \<int>"
  proof -
    from z obtain k where k: "real_of_int rate * dur = real_of_int k" by (elim Ints_cases)
    have "real_of_int k \<le> 2 ^ 52" using assms(5) k by simp
    then have "real_of_int k < real_of_int (2 ^ 53)" by simp
    then have k53: "k < 2 ^ 53" by (simp only: of_int_less_iff)
    have "0 < real_of_int k" using pos k by simp
    then have k0: "0 < k" by simp
    have "rd (real_of_int k) = real_of_int k" using k0 k53 by (intro rd_of_int) simp
    then have "int (length t) = k" using e(1) k by simp
    then have len: "real (length t) = real_of_int rate * dur" using k by simp
    have "dur / (real_of_int rate * dur) = 1 / real_of_int rate" using assms(1,3) by simp
    then show ?thesis using len by simp
  qed
  show ?thesis
  proof (intro exI [of _ buf] conjI allI impI)
    show "synthesize rate dur g = Inr buf" by (rule b)
    show "length (sb_full_signal buf) = length (sb_t buf)" using l lt by simp
    show "int (length (sb_t buf)) = \<lfloor>rd (real_of_int rate * dur)\<rfloor>"
      unfolding bt by (rule e(1))
    show "sb_t buf ! i = rd (real i * rd (dur / real (length (sb_t buf))))"
      if "i < length (sb_t buf)" for i using that unfolding bt by (rule nth)
    show "sb_t buf ! 0 = 0" if "0 < length (sb_t buf)" using that unfolding bt by (rule first)
    show "sb_t buf ! i < sb_t buf ! Suc i" if "Suc i < length (sb_t buf)" for i
      using that unfolding bt by (rule strict)
    show "real (length (sb_t buf)) = real_of_int rate * dur"
      if "real_of_int rate * dur \<in> \<int>" using whole [OF that] unfolding bt by blast
    show "rd (dur / real (length (sb_t buf))) = rd (1 / real_of_int rate)"
      if "real_of_int rate * dur \<in> \<int>" using whole [OF that] unfolding bt by blast
  qed
qed

theorem synthesize_length_and_time_witness:
  "0 < sample_rate \<and> sample_rate < 2 ^ 53 \<and> 0 < duration \<and> rd duration = duration \<and>
   real_of_int sample_rate * duration \<le> 2 ^ 52 \<and> real_of_int sample_rate * duration \<in> \<int> \<and>
   (\<exists>buf. synthesize sample_rate duration zero_rng = Inr buf \<and>
      length (sb_full_signal buf) = 441000 \<and> length (sb_t buf) = 441000 \<and>
      sb_t buf ! 0 = 0 \<and> sb_t buf ! 0 < sb_t buf ! Suc 0 \<and>
      sb_t buf ! Suc 0 = rd (1 / 44100))"
proof -
  have r: "0 < sample_rate" "sample_rate < 2 ^ 53" by (simp_all add: sample_rate_def)
  have d: "0 < duration" by (simp add: duration_def)
  have dd: "rd duration = duration" unfolding duration_def by (rule rd_numeral) simp
  have p: "real_of_int sample_rate * duration = 441000"
    by (simp add: sample_rate_def duration_def)
  have le: "real_of_int sample_rate * duration \<le> 2 ^ 52" unfolding p by simp
  have z: "real_of_int sample_rate * duration \<in> \<int>" unfolding p by simp
  have rp: "rd 441000 = 441000" by (rule rd_numeral) simp
  from synthesize_length_and_time [OF r d dd le, of zero_rng] z
  obtain buf where b: "synthesize sample_rate duration zero_rng = Inr buf"
    and l: "length (sb_full_signal buf) = length (sb_t buf)"
    and i: "int (length (sb_t buf)) = \<lfloor>rd (real_of_int sample_rate * duration)\<rfloor>"
    and nth: "\<forall>i<length (sb_t buf).
              sb_t buf ! i = rd (real i * rd (duration / real (length (sb_t buf))))"
    and f: "0 < length (sb_t buf) \<longrightarrow> sb_t buf ! 0 = 0"
    and s: "\<forall>i. Suc i < length (sb_t buf) \<longrightarrow> sb_t buf ! i < sb_t buf ! Suc i"
    and w: "rd (duration / real (length (sb_t buf))) = rd (1 / real_of_int sample_rate)"
    by auto
  have len: "length (sb_t buf) = 441000" using i unfolding p rp by simp
  have "sb_t buf ! Suc 0 = rd (real (Suc 0) * rd (duration / real (length (sb_t buf))))"
    using nth len by simp
  then have one: "sb_t buf ! Suc 0 = rd (1 / 44100)"
    unfolding w by (simp add: sample_rate_def)
  have z0: "sb_t buf ! 0 = 0" using f len by simp
  have "Suc 0 < length (sb_t buf)" using len by simp
  with s have "sb_t buf ! 0 < sb_t buf ! Suc 0" by blast
  then show ?thesis using z0 r d dd le z b l len one by auto
qed

text \<open>
  With 5 Hz and half a second the product is 2.5: the buffer has 2 samples and the time
  index is 0, 1/4, so neither the length nor the step is what C3 states. With 5 Hz and one
  second the length is 5, but the entries are 0, 0.2, 0.4, 0.6000000000000001, 0.8 as
  doubles, and the difference of the entries 3 and 2 is not that of the entries 1 and 0.
\<close>

theorem synthesize_length_counterexample:
  "map_sum id sb_t (synthesize 5 (1/2) zero_rng) = Inr [0, 1/4] \<and>
   map_sum id (length \<circ> sb_full_signal) (synthesize 5 (1/2) zero_rng) = Inr 2 \<and>
   real 2 \<noteq> real_of_int 5 * (1/2) \<and> (1/4 - 0 :: real) \<noteq> 1 / real_of_int 5 \<and>
   map_sum id sb_t (synthesize 5 1 zero_rng) =
     Inr [0, 3602879701896397 / 2 ^ 54, 3602879701896397 / 2 ^ 53,
          1351079888211149 / 2 ^ 51, 3602879701896397 / 2 ^ 52] \<and>
   (1351079888211149 / 2 ^ 51 - 3602879701896397 / 2 ^ 53 :: real) \<noteq>
     3602879701896397 / 2 ^ 54 - 0"
proof -
  have r0: "rd 0 = 0" by simp
  have r1: "rd 1 = 1" by simp
  have r2: "rd 2 = 2" and r3: "rd 3 = 3" and r4: "rd 4 = 4" and r5: "rd 5 = 5"
    by (rule rd_numeral, simp)+
  have h: "rd (1/2) = 1/2" using rd_dyadic [of 1 1] by simp
  have q: "rd (1/4) = 1/4" using rd_dyadic [of 1 2] by simp
  have p: "rd (5/2) = 5/2" using rd_dyadic [of 5 1] by simp
  have n1: "samples 5 (1/2) = 2" by (simp add: samples_def r5 p py_int_def)
  have t1: "t_index 5 (1/2) = Inr [0, 1/4]"
    by (simp add: t_index_def n1 linspace_def Let_def range_py_def upt_rec numeral_2_eq_2
        h q r1)
  have a: "map_sum id sb_t (synthesize 5 (1/2) zero_rng) = Inr [0, 1/4]"
    by (simp add: synthesize_def t1 Let_def)
  have b: "map_sum id (length \<circ> sb_full_signal) (synthesize 5 (1/2) zero_rng) = Inr 2"
    by (simp add: synthesize_def t1 n1 Let_def base_signal_def noise_def randn_def
        abnormality_def zero_rng_def range_py_def)
  have n2: "samples 5 1 = 5" by (simp add: samples_def r5 py_int_def)
  have s: "rd (1 / 5) = 3602879701896397 / 2 ^ 54"
    by (subst rd_eval [where k = 55]) (simp_all add: round_even_def)
  have e1: "rd (1 * (3602879701896397 / 2 ^ 54)) = 3602879701896397 / 2 ^ 54"
    by (subst rd_eval [where k = 55]) (simp_all add: round_even_def)
  have e2: "rd (2 * (3602879701896397 / 2 ^ 54)) = 3602879701896397 / 2 ^ 53"
    by (subst rd_eval [where k = 54]) (simp_all add: round_even_def)
  have e3: "rd (3 * (3602879701896397 / 2 ^ 54)) = 1351079888211149 / 2 ^ 51"
    by (subst rd_eval [where k = 53]) (simp_all add: round_even_def)
  have e4: "rd (4 * (3602879701896397 / 2 ^ 54)) = 3602879701896397 / 2 ^ 52"
    by (subst rd_eval [where k = 53]) (simp_all add: round_even_def)
  have i1: "rd (3602879701896397 / 2 ^ 54) = 3602879701896397 / 2 ^ 54"
    using rd_dyadic [of 3602879701896397 54] by simp
  have i2: "rd (3602879701896397 / 2 ^ 53) = 3602879701896397 / 2 ^ 53"
    using rd_dyadic [of 3602879701896397 53] by simp
  have i3: "rd (1351079888211149 / 2 ^ 51) = 1351079888211149 / 2 ^ 51"
    using rd_dyadic [of 1351079888211149 51] by simp
  have i4: "rd (3602879701896397 / 2 ^ 52) = 3602879701896397 / 2 ^ 52"
    using rd_dyadic [of 3602879701896397 52] by simp
  have u: "[0..<5] = [0, 1, 2, 3, 4]" by (simp add: upt_rec)
  have "linspace 0 1 5 =
     Inr (map (\<lambda>i. rd (rd (rd (real_of_int i) * rd (rd (1 - 0) / real_of_int 5)) + 0))
           (map int [0, 1, 2, 3, 4]))"
    unfolding linspace_def Let_def range_py_def by (simp add: u)
  also have "\<dots> = Inr [rd (rd (rd 0 * rd (1 / 5))), rd (rd (rd 1 * rd (1 / 5))),
      rd (rd (rd 2 * rd (1 / 5))), rd (rd (rd 3 * rd (1 / 5))), rd (rd (rd 4 * rd (1 / 5)))]"
    by simp
  also have "\<dots> = Inr [0, 3602879701896397 / 2 ^ 54, 3602879701896397 / 2 ^ 53,
          1351079888211149 / 2 ^ 51, 3602879701896397 / 2 ^ 52]"
    unfolding r0 r1 r2 r3 r4 s e1 e2 e3 e4 i1 i2 i3 i4 by simp
  finally have t2: "t_index 5 1 = Inr [0, 3602879701896397 / 2 ^ 54, 3602879701896397 / 2 ^ 53,
          1351079888211149 / 2 ^ 51, 3602879701896397 / 2 ^ 52]"
    by (simp add: t_index_def n2)
  have c: "map_sum id sb_t (synthesize 5 1 zero_rng) =
     Inr [0, 3602879701896397 / 2 ^ 54, 3602879701896397 / 2 ^ 53,
          1351079888211149 / 2 ^ 51, 3602879701896397 / 2 ^ 52]"
    unfolding synthesize_def t2 Let_def by simp
  have d: "(1351079888211149 / 2 ^ 51 - 3602879701896397 / 2 ^ 53 :: real) \<noteq>
     3602879701896397 / 2 ^ 54 - 0" by simp
  show ?thesis using a b c d by simp
qed

subsection \<open>The reveal windows\<close>

text \<open>
  Claim C8: the loop produces exactly 100 frames, and for all steps \<open>i < j\<close> below 100 the
  end index at step \<open>i\<close> is at most the end index at step \<open>j\<close>, whatever the sample
  count.
\<close>

theorem scan_loop_windows:
  "length (scan_loop n) = 100 \<and>
   (\<forall>i j. i < j \<and> j < 100 \<longrightarrow>
      end_index (scan_loop n ! i) \<le> end_index (scan_loop n ! j))"
proof (intro conjI allI impI)
  show "length (scan_loop n) = 100" by (rule scan_loop_length)
next
  fix i j :: nat
  assume ij: "i < j \<and> j < 100"
  then have "display_samples n (int i) \<le> display_samples n (int j)"
    by (intro display_samples_mono) simp_all
  then show "end_index (scan_loop n ! i) \<le> end_index (scan_loop n ! j)"
    using ij by (simp add: scan_loop_nth scan_step_def)
qed

theorem scan_loop_windows_witness:
  "length (scan_loop 441000) = 100 \<and> (0::nat) < 99 \<and> (99::nat) < 100 \<and>
   end_index (scan_loop 441000 ! 0) \<le> end_index (scan_loop 441000 ! 99)"
proof -
  have "(0::nat) < 99 \<and> (99::nat) < 100" by simp
  then show ?thesis using scan_loop_windows [of 441000] by blast
qed

text \<open>
  Claim C2, as the code has it: for a positive sample count \<open>n\<close> the end index of the
  last frame is \<open>n - n mod 100\<close>; it is the full buffer length when \<open>n\<close> is a multiple of
  100, as the script's 441000 is.
\<close>

theorem last_window_end:
  assumes "0 < n"
  shows "end_index (last (scan_loop n)) = n - n mod 100 \<and>
         (n mod 100 = 0 \<longrightarrow> end_index (last (scan_loop n)) = n)"
proof -
  have "chunk_size n = n div 100" using assms by (simp add: chunk_size_nonneg)
  then have "display_samples n 99 = min (100 * (n div 100)) n"
    by (simp add: display_samples_def)
  moreover have "100 * (n div 100) = n - n mod 100"
    by (simp add: minus_mod_eq_mult_div)
  moreover have "0 \<le> n mod 100" by simp
  ultimately have "display_samples n 99 = n - n mod 100" by simp
  then show ?thesis by (simp add: scan_loop_last scan_step_def)
qed

theorem last_window_end_witness:
  "0 < samples sample_rate duration \<and> samples sample_rate duration mod 100 = 0 \<and>
   end_index (last (scan_loop (samples sample_rate duration))) = 441000"
  unfolding samples_script using last_window_end [of 441000] by simp

text \<open>
  With 15 Hz and 10 s the buffer has 150 samples, the chunk size is 1 and the last frame
  ends at 100, short of the buffer length that C2 states.
\<close>

theorem last_window_counterexample:
  "samples 15 10 = 150 \<and> end_index (last (scan_loop 150)) = 100 \<and>
   end_index (last (scan_loop 150)) \<noteq> 150"
proof -
  have "rd 15 = 15" and "rd 150 = 150" by (rule rd_numeral, simp)+
  then have "samples 15 10 = 150" by (simp add: samples_def py_int_def)
  moreover have "end_index (last (scan_loop 150)) = 100"
    by (simp add: scan_loop_last scan_step_def display_samples_def chunk_size_def py_int_def)
  ultimately show ?thesis by simp
qed

text \<open>
  The spectrum is recomputed in passes 0, 5, ..., 95 by
  \<^verbatim>\<open>signal.welch(full_signal[:display_samples], sample_rate, nperseg=1024)\<close>, a function
  of scipy that is not modelled here. With the script's 441000 samples each slice it is
  given has at least 4410 entries, more than the segment length 1024.
\<close>

lemma spectrum_slices_long:
  assumes "i < 100"
  shows "4410 \<le> end_index (scan_loop (samples sample_rate duration) ! i)"
proof -
  have c: "chunk_size 441000 = 4410" by (simp add: chunk_size_def py_int_def)
  have "(1::int) * 4410 \<le> (int i + 1) * 4410" by (intro mult_right_mono) simp_all
  then have "4410 \<le> display_samples 441000 (int i)"
    by (simp add: display_samples_def c)
  then show ?thesis using assms by (simp add: samples_script scan_loop_nth scan_step_def)
qed

subsection \<open>The risk score\<close>

text \<open>
  Claim C4, as the code has it: for markers within their documented ranges and a
  perturbation in \<open>[0, 15]\<close>, the score is \<open>min 100 (floor raw)\<close> for the weighted sum
  \<open>raw\<close> as the program computes it in doubles, and it lies in \<open>[0, 100]\<close>. That sum is
  within \<open>2 ^ -43\<close> of the exact weighted sum, so the score is \<open>min 100 (floor exact)\<close>
  unless the exact sum is that close to an integer.
\<close>

theorem risk_score_formula:
  assumes "1.5 \<le> nc" and "nc \<le> 2.8" and "35 \<le> ef" and "ef \<le> 65"
    and "0.4 \<le> tr" and "tr \<le> 0.9" and "0 \<le> p" and "p \<le> 15"
  shows "risk_score nc ef tr p = min 100 \<lfloor>risk_raw nc ef tr p\<rfloor> \<and>
         0 \<le> risk_score nc ef tr p \<and> risk_score nc ef tr p \<le> 100 \<and>
         \<bar>risk_raw nc ef tr p - risk_exact nc ef tr p\<bar> \<le> 1 / 2 ^ 43 \<and>
         min 100 \<lfloor>risk_exact nc ef tr p - 1 / 2 ^ 43\<rfloor> \<le> risk_score nc ef tr p \<and>
         risk_score nc ef tr p \<le> min 100 \<lfloor>risk_exact nc ef tr p + 1 / 2 ^ 43\<rfloor>"
proof -
  have r: "8 \<le> risk_raw nc ef tr p"
    using assms(1,4,5,7) by (rule risk_raw_lower)
  then have i: "py_int (risk_raw nc ef tr p) = \<lfloor>risk_raw nc ef tr p\<rfloor>"
    by (simp add: py_int_nonneg)
  have s: "risk_score nc ef tr p = min 100 \<lfloor>risk_raw nc ef tr p\<rfloor>"
    by (simp add: risk_score_def i)
  have "0 \<le> \<lfloor>risk_raw nc ef tr p\<rfloor>" using r by simp
  then have lo: "0 \<le> risk_score nc ef tr p" unfolding s by simp
  have hi: "risk_score nc ef tr p \<le> 100" unfolding s by simp
  have e: "\<bar>risk_raw nc ef tr p - risk_exact nc ef tr p\<bar> \<le> 1 / 2 ^ 43"
    using assms by (rule risk_raw_err)
  then have "risk_exact nc ef tr p - 1 / 2 ^ 43 \<le> risk_raw nc ef tr p"
    and "risk_raw nc ef tr p \<le> risk_exact nc ef tr p + 1 / 2 ^ 43" by linarith+
  then have "\<lfloor>risk_exact nc ef tr p - 1 / 2 ^ 43\<rfloor> \<le> \<lfloor>risk_raw nc ef tr p\<rfloor>"
    and "\<lfloor>risk_raw nc ef tr p\<rfloor> \<le> \<lfloor>risk_exact nc ef tr p + 1 / 2 ^ 43\<rfloor>"
    by (simp_all only: floor_mono)
  then have "min 100 \<lfloor>risk_exact nc ef tr p - 1 / 2 ^ 43\<rfloor> \<le> risk_score nc ef tr p"
    and "risk_score nc ef tr p \<le> min 100 \<lfloor>risk_exact nc ef tr p + 1 / 2 ^ 43\<rfloor>"
    unfolding s by (simp_all only: min.mono order_refl)
  then show ?thesis using s lo hi e by blast
qed

theorem risk_score_formula_witness:
  "(1.5::real) \<le> 2.5 \<and> (2.5::real) \<le> 2.8 \<and> (35::real) \<le> 35 \<and> (35::real) \<le> 65 \<and>
   (0.4::real) \<le> 0.85 \<and> (0.85::real) \<le> 0.9 \<and> (0::int) \<le> 0 \<and> (0::int) \<le> 15 \<and>
   risk_score 2.5 35 0.85 0 = min 100 \<lfloor>risk_raw 2.5 35 0.85 0\<rfloor> \<and>
   0 \<le> risk_score 2.5 35 0.85 0 \<and> risk_score 2.5 35 0.85 0 \<le> 100 \<and>
   \<bar>risk_raw 2.5 35 0.85 0 - risk_exact 2.5 35 0.85 0\<bar> \<le> 1 / 2 ^ 43 \<and>
   min 100 \<lfloor>risk_exact 2.5 35 0.85 0 - 1 / 2 ^ 43\<rfloor> \<le> risk_score 2.5 35 0.85 0 \<and>
   risk_score 2.5 35 0.85 0 \<le> min 100 \<lfloor>risk_exact 2.5 35 0.85 0 + 1 / 2 ^ 43\<rfloor>"
proof -
  have h: "(1.5::real) \<le> 2.5" "(2.5::real) \<le> 2.8" "(35::real) \<le> 35" "(35::real) \<le> 65"
    "(0.4::real) \<le> 0.85" "(0.85::real) \<le> 0.9" "(0::int) \<le> 0" "(0::int) \<le> 15"
    by simp_all
  from risk_score_formula [OF h] h show ?thesis by blast
qed

text \<open>
  The exact-arithmetic reading of C4 fails at markers within the ranges: with
  \<open>nc_ratio = 1.5\<close>, \<open>ejection_fraction = 65\<close>, the double written
  \<^verbatim>\<open>0.44999999999999996\<close> as \<open>trabeculation_score\<close> and perturbation 0, the product
  \<open>20 * trabeculation_score\<close> rounds up to 9 and the score is 9, while the floor of the
  exact sum is 8.
\<close>

theorem risk_score_formula_counterexample:
  "(0.4::real) \<le> 2026619832316723 / 2 ^ 52 \<and> (2026619832316723 / 2 ^ 52 :: real) \<le> 0.9 \<and>
   rd (2026619832316723 / 2 ^ 52) = 2026619832316723 / 2 ^ 52 \<and>
   risk_score 1.5 65 (2026619832316723 / 2 ^ 52) 0 = 9 \<and>
   min 100 \<lfloor>risk_exact 1.5 65 (2026619832316723 / 2 ^ 52) 0\<rfloor> = 8"
proof -
  have d: "rd (2026619832316723 / 2 ^ 52) = 2026619832316723 / 2 ^ 52"
    using rd_dyadic [of 2026619832316723 52] by simp
  have c: "rd (20 * (2026619832316723 / 2 ^ 52)) = 9"
    by (subst rd_eval [where k = 49]) (simp_all add: round_even_def)
  have n: "rd 9 = 9" by (rule rd_numeral) simp
  have "risk_raw 1.5 65 (2026619832316723 / 2 ^ 52) 0 = 9"
    unfolding risk_raw_def c by (simp add: n)
  then have "risk_score 1.5 65 (2026619832316723 / 2 ^ 52) 0 = 9"
    by (simp add: risk_score_def py_int_def)
  moreover have "min 100 \<lfloor>risk_exact 1.5 65 (2026619832316723 / 2 ^ 52) 0\<rfloor> = 8"
    by (simp add: risk_exact_def)
  ultimately show ?thesis using d by simp
qed



text \<open>
  Claim C6: for the same markers and perturbation 0 the score is 58, the metric card reads
  Moderate and the recommendation is the moderate-suspicion one.
\<close>

theorem risk_score_moderate:
  "risk_score 2.5 35 0.85 0 = 58 \<and>
   metric_card (risk_score 2.5 35 0.85 0) = ''Moderate'' \<and>
   recommendation (risk_score 2.5 35 0.85 0) = Warning_box ''Moderate Suspicion for LVNC'' \<and>
   risk_score 2.5 35 (rd 0.85) 0 = 58"
proof -
  have a: "risk_score 2.5 35 0.85 0 = 58" using tr_exact by (rule scenario_score_0)
  have a': "risk_score 2.5 35 (rd 0.85) 0 = 58" using tr_double by (rule scenario_score_0)
  show ?thesis unfolding a a' by (simp add: recommendation_def metric_card_def)
qed

text \<open>
  Claim C7: the score is non-decreasing in \<open>nc_ratio\<close>, in
  \<open>1 - ejection_fraction / 65\<close> and in \<open>trabeculation_score\<close>, each taken separately with
  the other inputs fixed.
\<close>

theorem risk_score_monotone:
  "(nc \<le> nc' \<longrightarrow> risk_score nc ef tr p \<le> risk_score nc' ef tr p) \<and>
   (1 - ef / 65 \<le> 1 - ef' / 65 \<longrightarrow> risk_score nc ef tr p \<le> risk_score nc ef' tr p) \<and>
   (tr \<le> tr' \<longrightarrow> risk_score nc ef tr p \<le> risk_score nc ef tr' p)"
proof (intro conjI impI)
  assume "nc \<le> nc'"
  then have "risk_raw nc ef tr p \<le> risk_raw nc' ef tr p" by (rule risk_raw_mono_nc)
  then show "risk_score nc ef tr p \<le> risk_score nc' ef tr p" by (rule risk_score_mono_raw)
next
  assume "1 - ef / 65 \<le> 1 - ef' / 65"
  then have "ef' \<le> ef" by simp
  then have "risk_raw nc ef tr p \<le> risk_raw nc ef' tr p" by (rule risk_raw_mono_ef)
  then show "risk_score nc ef tr p \<le> risk_score nc ef' tr p" by (rule risk_score_mono_raw)
next
  assume "tr \<le> tr'"
  then have "risk_raw nc ef tr p \<le> risk_raw nc ef tr' p" by (rule risk_raw_mono_tr)
  then show "risk_score nc ef tr p \<le> risk_score nc ef tr' p" by (rule risk_score_mono_raw)
qed

theorem risk_score_monotone_witness:
  "(1.5::real) \<le> 2.5 \<and> risk_score 1.5 65 0.4 0 \<le> risk_score 2.5 65 0.4 0 \<and>
   (1 - 65 / 65 :: real) \<le> 1 - 35 / 65 \<and> risk_score 1.5 65 0.4 0 \<le> risk_score 1.5 35 0.4 0 \<and>
   (0.4::real) \<le> 0.85 \<and> risk_score 1.5 65 0.4 0 \<le> risk_score 1.5 65 0.85 0"
  using risk_score_monotone [of "3/2" "5/2" 65 "2/5" 0 35 "85/100"] by simp

text \<open>
  Claim C10: for \<open>nc_ratio \<ge> 1.5\<close>, \<open>ejection_fraction \<le> 65\<close>,
  \<open>trabeculation_score \<ge> 0.4\<close> and a non-negative perturbation the weighted sum is at
  least 8, and so is the score: none of the scores 0 to 7 occurs.
\<close>

theorem risk_score_at_least_8:
  assumes "1.5 \<le> nc" and "ef \<le> 65" and "0.4 \<le> tr" and "0 \<le> p"
  shows "8 \<le> risk_raw nc ef tr p \<and> 8 \<le> risk_score nc ef tr p \<and>
         risk_score nc ef tr p \<notin> {0..7}"
proof -
  have r: "8 \<le> risk_raw nc ef tr p" using assms by (rule risk_raw_lower)
  then have "py_int (risk_raw nc ef tr p) = \<lfloor>risk_raw nc ef tr p\<rfloor>"
    by (simp add: py_int_nonneg)
  moreover have "8 \<le> \<lfloor>risk_raw nc ef tr p\<rfloor>" using r by (simp add: le_floor_iff)
  ultimately have "8 \<le> risk_score nc ef tr p" by (simp add: risk_score_def)
  then show ?thesis using r by simp
qed

theorem risk_score_at_least_8_witness:
  "(1.5::real) \<le> 1.5 \<and> (65::real) \<le> 65 \<and> (0.4::real) \<le> 0.4 \<and> (0::int) \<le> 0 \<and>
   8 \<le> risk_raw 1.5 65 0.4 0 \<and> 8 \<le> risk_score 1.5 65 0.4 0 \<and>
   risk_score 1.5 65 0.4 0 \<notin> {0..7}"
  using risk_score_at_least_8 [of "3/2" 65 "2/5" 0] by simp

end
